theory Spec2Isabelle
  imports Main "HOL-Library.Multiset"
begin

section \<open>Data model\<close>

text \<open>
  The exceptions that \<^verbatim>\<open>get_data_splits\<close> of \<^verbatim>\<open>src/main.py\<close> can raise on
  in-memory data: a list index out of range, a failed \<^verbatim>\<open>assert\<close>, and an unpacking of
  too few values.
\<close>

datatype py_error = IndexError | AssertionError | ValueError

text \<open>
  A sample is a dictionary of which the splitter reads one entry, \<^verbatim>\<open>data["coords_list"]\<close>,
  and only its length. All other entries are the extension of the record.
\<close>

record 'c sample =
  coords_list :: "'c list"

text \<open>The one configuration option that the slicing reads.\<close>

record config =
  eval_size :: int

section \<open>Python sequence operations\<close>

text \<open>
  \<^verbatim>\<open>lst[index]\<close>: a negative index counts from the end, an index outside
  \<open>-len(lst) \<le> index < len(lst)\<close> raises IndexError.
\<close>

definition getitem :: "'a list \<Rightarrow> int \<Rightarrow> py_error + 'a" where
  "getitem lst index =
     (let n = int (length lst);
          j = (if index < 0 then n + index else index)
      in if 0 \<le> j \<and> j < n then Inr (lst ! nat j) else Inl IndexError)"

text \<open>
  A bound of a slice \<^verbatim>\<open>lst[lo:hi]\<close> with step 1: an absent bound is the given default, a
  negative one counts from the end, and the result is clamped into \<open>0 .. len(lst)\<close>.
\<close>

definition slice_bound :: "nat \<Rightarrow> nat \<Rightarrow> int option \<Rightarrow> nat" where
  "slice_bound n dflt b =
     (case b of
        None \<Rightarrow> dflt
      | Some i \<Rightarrow> (if i < 0 then nat (max 0 (int n + i)) else min (nat i) n))"

definition slice :: "'a list \<Rightarrow> int option \<Rightarrow> int option \<Rightarrow> 'a list" where
  "slice lst lo hi =
     (let n = length lst;
          a = slice_bound n 0 lo;
          b = slice_bound n n hi
      in take (b - a) (drop a lst))"

text \<open>
  \<^verbatim>\<open>sorted(xs, key=key, reverse=True)\<close>: a stable sort into descending key order. The
  interpreter reverses the list, sorts it stably into ascending order and reverses the
  result, which keeps elements with equal keys in their original order.
\<close>

definition sorted_reverse :: "('a \<Rightarrow> 'k::linorder) \<Rightarrow> 'a list \<Rightarrow> 'a list" where
  "sorted_reverse key xs = rev (sort_key key (rev xs))"

text \<open>
  \<^verbatim>\<open>a, b = zip(*pairs)\<close>: on a non-empty list of pairs \<^verbatim>\<open>zip\<close> yields the two columns;
  on an empty list it yields nothing and the unpacking into two names raises ValueError.
\<close>

definition unzip2 :: "('a \<times> 'b) list \<Rightarrow> py_error + ('a list \<times> 'b list)" where
  "unzip2 pairs = (if pairs = [] then Inl ValueError else Inr (map fst pairs, map snd pairs))"

section \<open>The dataset splitter\<close>

text \<open>The local function \<^verbatim>\<open>index_list_by_indices\<close>: \<^verbatim>\<open>[lst[index] for index in indices]\<close>.\<close>

fun index_list_by_indices :: "'a list \<Rightarrow> int list \<Rightarrow> py_error + 'a list" where
  "index_list_by_indices lst [] = Inr []"
| "index_list_by_indices lst (index # indices) =
     (case getitem lst index of
        Inl e \<Rightarrow> Inl e
      | Inr x \<Rightarrow>
          (case index_list_by_indices lst indices of
             Inl e \<Rightarrow> Inl e
           | Inr xs \<Rightarrow> Inr (x # xs)))"

text \<open>
  The ordering step of \<^verbatim>\<open>get_data_splits\<close> for the strategies other than
  \<^verbatim>\<open>"seq_identity"\<close> (the \<^verbatim>\<open>elif\<close>/\<^verbatim>\<open>else\<close> chain): the value of \<^verbatim>\<open>data_list\<close> when the slicing
  starts. \<open>rmsd_list\<close> is what the imported \<^verbatim>\<open>get_avg_rmsds(data_list)\<close> returned; it is
  read by the \<^verbatim>\<open>"rmsd"\<close> branch only, and its values are taken from a linear order
  (numbers without NaN). The assertion of the \<^verbatim>\<open>"struct"\<close> branch compares
  \<^verbatim>\<open>len(count_list)\<close> with itself, as in the source.
\<close>

text \<open>\<^verbatim>\<open>[len(data["coords_list"]) for data in data_list]\<close>\<close>

definition count_list_struct :: "('c, 'm) sample_scheme list \<Rightarrow> nat list" where
  "count_list_struct data_list = map (\<lambda>data. length (coords_list data)) data_list"

definition order_data_list ::
  "string \<Rightarrow> ('c, 'm) sample_scheme list \<Rightarrow> 'k::linorder list
     \<Rightarrow> py_error + ('c, 'm) sample_scheme list" where
  "order_data_list split_type data_list rmsd_list =
     (if split_type = ''rmsd'' then
        (if length data_list \<noteq> length rmsd_list then Inl AssertionError
         else
           (let zipped = zip data_list rmsd_list;
                sorted_zipped = sorted_reverse snd zipped
            in case unzip2 sorted_zipped of
                 Inl e \<Rightarrow> Inl e
               | Inr (data_list', rmsd_list') \<Rightarrow> Inr data_list'))
      else if split_type = ''struct'' then
        (let counts = count_list_struct data_list
         in if length counts \<noteq> length counts then Inl AssertionError
            else
              (let zipped = zip data_list counts;
                   sorted_zipped = sorted_reverse snd zipped
               in case unzip2 sorted_zipped of
                    Inl e \<Rightarrow> Inl e
                  | Inr (data_list', counts') \<Rightarrow> Inr data_list'))
      else Inr data_list)"

text \<open>
  \<^verbatim>\<open>get_data_splits(config, split_type)\<close>. The loaded corpus \<open>data_list\<close>, the metric list
  \<open>rmsd_list\<close> and the content \<open>seq_identity_split\<close> of the precomputed artifact
  (train, val and test index lists) are parameters. The result is
  \<open>(train_list, val_list, test_list)\<close>.
\<close>

definition get_data_splits ::
  "config \<Rightarrow> string \<Rightarrow> ('c, 'm) sample_scheme list \<Rightarrow> 'k::linorder list
     \<Rightarrow> int list \<times> int list \<times> int list
     \<Rightarrow> py_error + (('c, 'm) sample_scheme list \<times> ('c, 'm) sample_scheme list
                      \<times> ('c, 'm) sample_scheme list)" where
  "get_data_splits config split_type data_list rmsd_list seq_identity_split =
     (if split_type = ''seq_identity'' then
        (case seq_identity_split of (train_idx_list, val_idx_list, test_idx_list) \<Rightarrow>
           (case index_list_by_indices data_list train_idx_list of
              Inl e \<Rightarrow> Inl e
            | Inr train_list \<Rightarrow>
                (case index_list_by_indices data_list val_idx_list of
                   Inl e \<Rightarrow> Inl e
                 | Inr val_list \<Rightarrow>
                     (case index_list_by_indices data_list test_idx_list of
                        Inl e \<Rightarrow> Inl e
                      | Inr test_list \<Rightarrow> Inr (train_list, val_list, test_list)))))
      else
        (case order_data_list split_type data_list rmsd_list of
           Inl e \<Rightarrow> Inl e
         | Inr data_list' \<Rightarrow>
             (let test_list = slice data_list' None (Some (eval_size config));
                  val_list = slice data_list' (Some (eval_size config))
                               (Some (2 * eval_size config));
                  train_list = slice data_list' (Some (2 * eval_size config)) None
              in Inr (train_list, val_list, test_list))))"

section \<open>The batch sampler\<close>

text \<open>
  Modelled from the spec: the class \<^verbatim>\<open>BatchSampler\<close> of \<^verbatim>\<open>src/data.py\<close>, which
  \<^verbatim>\<open>get_dataloader\<close> constructs, is not among the source files. The greedy pass of section
  4.2 walks the index ordering with the current batch and its total size: the next index
  joins the current batch if the total stays within \<open>max_nodes\<close>; otherwise the current
  batch is emitted and a new one starts with that index. A current batch that is still
  empty is not emitted, and the last batch is emitted at the end.
\<close>

fun pack :: "nat list \<Rightarrow> nat \<Rightarrow> nat list \<Rightarrow> nat list \<Rightarrow> nat \<Rightarrow> nat list list" where
  "pack node_counts max_nodes [] batch n_nodes = (if batch = [] then [] else [batch])"
| "pack node_counts max_nodes (i # rest) batch n_nodes =
     (if n_nodes + node_counts ! i \<le> max_nodes
      then pack node_counts max_nodes rest (batch @ [i]) (n_nodes + node_counts ! i)
      else if batch = [] then pack node_counts max_nodes rest [i] (node_counts ! i)
      else batch # pack node_counts max_nodes rest [i] (node_counts ! i))"

text \<open>
  Modelled from the spec: one epoch of the sampler. With \<open>shuffle\<close> the ordering is the
  permutation \<open>perm\<close> drawn from the random source, without it the ascending original
  order.
\<close>

definition epoch :: "nat list \<Rightarrow> nat \<Rightarrow> bool \<Rightarrow> nat list \<Rightarrow> nat list list" where
  "epoch node_counts max_nodes shuffle perm =
     pack node_counts max_nodes
       (if shuffle then perm else [0..<length node_counts]) [] 0"

text \<open>Modelled from the spec: the budget invariant of one batch.\<close>

definition within_budget :: "nat list \<Rightarrow> nat \<Rightarrow> nat list \<Rightarrow> bool" where
  "within_budget node_counts max_nodes batch =
     (sum_list (map (\<lambda>i. node_counts ! i) batch) \<le> max_nodes
      \<or> (length batch = 1 \<and> max_nodes < node_counts ! (hd batch)))"

section \<open>Notions used in the statements\<close>

text \<open>An index that \<^verbatim>\<open>lst[index]\<close> accepts, and the element it then reads.\<close>

definition in_range :: "'a list \<Rightarrow> int \<Rightarrow> bool" where
  "in_range lst index = (- int (length lst) \<le> index \<and> index < int (length lst))"

definition lookup :: "'a list \<Rightarrow> int \<Rightarrow> 'a" where
  "lookup lst index = lst ! nat (if index < 0 then int (length lst) + index else index)"

section \<open>Sample data for the concrete scenarios\<close>

text \<open>Sample number \<open>i\<close> of a corpus, with \<open>k\<close> structures.\<close>

definition smp :: "nat \<Rightarrow> nat \<Rightarrow> (unit, nat) sample_scheme" where
  "smp i k = \<lparr>coords_list = replicate k (), \<dots> = i\<rparr>"

definition corpus10 :: "(unit, nat) sample_scheme list" where
  "corpus10 = map (\<lambda>i. smp i 1) [0, 1, 2, 3, 4, 5, 6, 7, 8, 9]"

section \<open>Python sequence operations: properties\<close>

lemma slice_prefix:
  "0 \<le> e \<Longrightarrow> slice lst None (Some e) = take (nat e) lst"
  by (simp add: slice_def slice_bound_def Let_def min_def)

lemma slice_middle:
  "0 \<le> e \<Longrightarrow> slice lst (Some e) (Some (2 * e)) = take (nat e) (drop (nat e) lst)"
  by (simp add: slice_def slice_bound_def Let_def min_def nat_mult_distrib)

lemma slice_suffix:
  "0 \<le> e \<Longrightarrow> slice lst (Some (2 * e)) None = drop (2 * nat e) lst"
  by (simp add: slice_def slice_bound_def Let_def min_def nat_mult_distrib)

lemma sorted_reverse_descending:
  "sorted_wrt (\<lambda>a b. key b \<le> key a) (sorted_reverse key xs)"
proof -
  have "sorted (map key (sort_key key (rev xs)))"
    by (rule sorted_sort_key)
  then show ?thesis
    by (simp add: sorted_reverse_def sorted_wrt_rev sorted_map)
qed

lemma sorted_reverse_stable:
  "filter (\<lambda>x. key x = k) (sorted_reverse key xs) = filter (\<lambda>x. key x = k) xs"
proof -
  have "filter (\<lambda>x. key x = k) (sorted_reverse key xs) =
          rev (filter (\<lambda>x. key x = k) (sort_key key (rev xs)))"
    by (simp add: sorted_reverse_def rev_filter)
  also have "\<dots> = rev (filter (\<lambda>x. key x = k) (rev xs))"
    by (simp only: sort_key_stable)
  also have "\<dots> = filter (\<lambda>x. key x = k) xs"
    by (simp add: rev_filter)
  finally show ?thesis .
qed

lemma mset_sorted_reverse: "mset (sorted_reverse key xs) = mset xs"
  by (simp add: sorted_reverse_def)

lemma sorted_reverse_Nil_iff: "sorted_reverse key xs = [] \<longleftrightarrow> xs = []"
  by (metis mset_sorted_reverse mset_zero_iff)

lemma getitem_in_range: "in_range lst index \<Longrightarrow> getitem lst index = Inr (lookup lst index)"
  by (simp add: getitem_def in_range_def lookup_def Let_def)

lemma getitem_out_of_range: "\<not> in_range lst index \<Longrightarrow> getitem lst index = Inl IndexError"
  by (auto simp: getitem_def in_range_def Let_def)

lemma index_list_by_indices_eq:
  "index_list_by_indices lst indices =
     (if list_all (in_range lst) indices then Inr (map (lookup lst) indices) else Inl IndexError)"
proof (induction indices)
  case Nil
  show ?case by simp
next
  case (Cons index indices)
  show ?case
  proof (cases "in_range lst index")
    case True
    then show ?thesis
      using Cons.IH by (simp add: getitem_in_range)
  next
    case False
    then show ?thesis
      by (simp add: getitem_out_of_range)
  qed
qed

section \<open>The ordering step\<close>

lemma order_data_list_other:
  "split_type \<noteq> ''rmsd'' \<Longrightarrow> split_type \<noteq> ''struct'' \<Longrightarrow>
   order_data_list split_type data_list rmsd_list = Inr data_list"
  by (simp add: order_data_list_def)

lemma order_data_list_rmsd:
  "order_data_list ''rmsd'' data_list rmsd_list =
     (if length data_list \<noteq> length rmsd_list then Inl AssertionError
      else if data_list = [] then Inl ValueError
      else Inr (map fst (sorted_reverse snd (zip data_list rmsd_list))))"
  by (cases data_list; cases rmsd_list)
     (simp_all add: order_data_list_def unzip2_def Let_def sorted_reverse_Nil_iff)

lemma order_data_list_struct:
  "order_data_list ''struct'' data_list rmsd_list =
     (if data_list = [] then Inl ValueError
      else Inr (map fst (sorted_reverse snd (zip data_list (count_list_struct data_list)))))"
  by (cases data_list)
     (simp_all add: order_data_list_def unzip2_def Let_def sorted_reverse_Nil_iff count_list_struct_def)

lemma order_data_list_mset:
  assumes "order_data_list split_type data_list rmsd_list = Inr ys"
  shows "mset ys = mset data_list"
proof -
  consider "split_type = ''rmsd''" | "split_type = ''struct''"
    | "split_type \<noteq> ''rmsd''" "split_type \<noteq> ''struct''"
    by blast
  then show ?thesis
  proof cases
    case 1
    with assms have l: "length data_list = length rmsd_list"
      and ys: "ys = map fst (sorted_reverse snd (zip data_list rmsd_list))"
      by (auto simp: order_data_list_rmsd split: if_splits)
    have "mset ys = image_mset fst (mset (zip data_list rmsd_list))"
      by (simp add: ys mset_sorted_reverse)
    also have "\<dots> = mset (map fst (zip data_list rmsd_list))"
      by simp
    finally show ?thesis
      using l by simp
  next
    case 2
    with assms have ys: "ys = map fst (sorted_reverse snd (zip data_list (count_list_struct data_list)))"
      by (auto simp: order_data_list_struct split: if_splits)
    have "mset ys = image_mset fst (mset (zip data_list (count_list_struct data_list)))"
      by (simp add: ys mset_sorted_reverse)
    also have "\<dots> = mset (map fst (zip data_list (count_list_struct data_list)))"
      by simp
    finally show ?thesis
      by (simp add: count_list_struct_def)
  next
    case 3
    with assms show ?thesis
      by (simp add: order_data_list_other)
  qed
qed

lemma order_data_list_length:
  "order_data_list split_type data_list rmsd_list = Inr ys \<Longrightarrow> length ys = length data_list"
  by (metis order_data_list_mset size_mset)

lemma rmsd_order_sorted_stable:
  assumes "order_data_list ''rmsd'' data_list rmsd_list = Inr ys"
  shows "\<exists>ms. length ms = length ys \<and> sorted_wrt (\<lambda>a b. b \<le> a) ms
           \<and> (\<forall>k. filter (\<lambda>p. snd p = k) (zip ys ms) =
                    filter (\<lambda>p. snd p = k) (zip data_list rmsd_list))"
proof -
  let ?ps = "sorted_reverse snd (zip data_list rmsd_list)"
  have ys: "ys = map fst ?ps"
    using assms by (auto simp: order_data_list_rmsd split: if_splits)
  have "sorted_wrt (\<lambda>a b. b \<le> a) (map snd ?ps)"
    using sorted_reverse_descending [of snd "zip data_list rmsd_list"]
    by (simp add: sorted_wrt_map)
  moreover have "zip ys (map snd ?ps) = ?ps"
    by (simp add: ys zip_map_fst_snd)
  ultimately show ?thesis
    using sorted_reverse_stable [of snd _ "zip data_list rmsd_list"]
    by (intro exI [of _ "map snd ?ps"]) (simp add: ys)
qed

lemma struct_order_sorted_stable:
  assumes "order_data_list ''struct'' data_list rmsd_list = Inr ys"
  shows "sorted_wrt (\<lambda>a b. length (coords_list b) \<le> length (coords_list a)) ys
         \<and> (\<forall>k. filter (\<lambda>d. length (coords_list d) = k) ys =
                  filter (\<lambda>d. length (coords_list d) = k) data_list)"
proof -
  let ?cnt = "\<lambda>d. length (coords_list d)"
  let ?zs = "zip data_list (count_list_struct data_list)"
  let ?ps = "sorted_reverse snd ?zs"
  have ys: "ys = map fst ?ps"
    using assms by (auto simp: order_data_list_struct split: if_splits)
  have zs: "?zs = map (\<lambda>d. (d, ?cnt d)) data_list"
    by (simp add: count_list_struct_def zip_map2 zip_same_conv_map)
  have key: "snd p = ?cnt (fst p)" if "p \<in> set ?ps" for p
  proof -
    have "p \<in> set ?zs"
      using that by (metis mset_sorted_reverse set_mset_mset)
    then show ?thesis
      by (auto simp: zs)
  qed
  have "sorted_wrt (\<lambda>p q. snd q \<le> snd p) ?ps"
    by (rule sorted_reverse_descending)
  then have "sorted_wrt (\<lambda>p q. ?cnt (fst q) \<le> ?cnt (fst p)) ?ps"
    by (rule sorted_wrt_mono_rel [rotated]) (simp add: key)
  then have sorted: "sorted_wrt (\<lambda>a b. ?cnt b \<le> ?cnt a) ys"
    by (simp add: ys sorted_wrt_map)
  have "filter (\<lambda>d. ?cnt d = k) ys = filter (\<lambda>d. ?cnt d = k) data_list" for k
  proof -
    have "filter (\<lambda>d. ?cnt d = k) ys = map fst (filter (\<lambda>p. ?cnt (fst p) = k) ?ps)"
      by (simp add: ys filter_map comp_def)
    also have "filter (\<lambda>p. ?cnt (fst p) = k) ?ps = filter (\<lambda>p. snd p = k) ?ps"
      by (rule filter_cong) (simp_all add: key)
    also have "\<dots> = filter (\<lambda>p. snd p = k) ?zs"
      by (rule sorted_reverse_stable)
    also have "map fst \<dots> = filter (\<lambda>d. ?cnt d = k) data_list"
      by (simp add: zs filter_map comp_def)
    finally show ?thesis .
  qed
  with sorted show ?thesis by blast
qed

section \<open>Slicing into test, val and train\<close>

lemma get_data_splits_sliced:
  assumes "split_type \<noteq> ''seq_identity''"
    and "0 \<le> eval_size config"
    and "order_data_list split_type data_list rmsd_list = Inr ys"
  shows "get_data_splits config split_type data_list rmsd_list seq =
           Inr (drop (2 * nat (eval_size config)) ys,
                take (nat (eval_size config)) (drop (nat (eval_size config)) ys),
                take (nat (eval_size config)) ys)"
  using assms by (simp add: get_data_splits_def Let_def slice_prefix slice_middle slice_suffix)

lemma get_data_splits_concat:
  assumes "split_type \<noteq> ''seq_identity''" and "0 \<le> eval_size config"
    and "get_data_splits config split_type data_list rmsd_list seq =
           Inr (train_list, val_list, test_list)"
  shows "order_data_list split_type data_list rmsd_list = Inr (test_list @ val_list @ train_list)"
proof (cases "order_data_list split_type data_list rmsd_list")
  case (Inl e)
  then show ?thesis
    using assms(1,3) by (simp add: get_data_splits_def)
next
  case (Inr ys)
  have "test_list @ val_list @ train_list =
      take (nat (eval_size config)) ys @ take (nat (eval_size config)) (drop (nat (eval_size config)) ys)
        @ drop (2 * nat (eval_size config)) ys"
    using get_data_splits_sliced [OF assms(1,2) Inr, of seq] assms(3) by simp
  also have "\<dots> = take (nat (eval_size config)) ys @ drop (nat (eval_size config)) ys"
    by (simp add: mult_2 flip: drop_drop)
  finally show ?thesis
    using Inr by simp
qed

lemma take_drop_ten:
  "length xs = 10 \<Longrightarrow>
     take 3 xs = map (\<lambda>i. xs ! i) [0, 1, 2]
     \<and> take 3 (drop 3 xs) = map (\<lambda>i. xs ! i) [3, 4, 5]
     \<and> drop 6 xs = map (\<lambda>i. xs ! i) [6, 7, 8, 9]"
  by (auto simp: numeral_eq_Suc length_Suc_conv)

text \<open>
  C1. For every strategy other than \<^verbatim>\<open>seq_identity\<close> and every non-negative \<open>eval_size\<close>,
  the splitter assigns the first \<open>eval_size\<close> items of the ordered sample sequence to test,
  the next \<open>eval_size\<close> items to val and the remaining items to train. For a corpus of 10
  samples, \<open>eval_size = 3\<close> and the random strategy, test is the samples at indices 0 to 2,
  val those at 3 to 5 and train those at 6 to 9.
\<close>

theorem split_slices:
  assumes "split_type \<noteq> ''seq_identity''"
    and "0 \<le> eval_size config"
    and "order_data_list split_type data_list rmsd_list = Inr ys"
  shows "get_data_splits config split_type data_list rmsd_list seq =
           Inr (drop (2 * nat (eval_size config)) ys,
                take (nat (eval_size config)) (drop (nat (eval_size config)) ys),
                take (nat (eval_size config)) ys)
         \<and> (split_type = ''random'' \<longrightarrow> length data_list = 10 \<longrightarrow> eval_size config = 3 \<longrightarrow>
              get_data_splits config split_type data_list rmsd_list seq =
                Inr (map (\<lambda>i. data_list ! i) [6, 7, 8, 9],
                     map (\<lambda>i. data_list ! i) [3, 4, 5],
                     map (\<lambda>i. data_list ! i) [0, 1, 2]))"
proof -
  let ?e = "nat (eval_size config)"
  have sliced: "get_data_splits config split_type data_list rmsd_list seq =
      Inr (drop (2 * ?e) ys, take ?e (drop ?e ys), take ?e ys)"
    using assms by (rule get_data_splits_sliced)
  have "get_data_splits config split_type data_list rmsd_list seq =
      Inr (map (\<lambda>i. data_list ! i) [6, 7, 8, 9], map (\<lambda>i. data_list ! i) [3, 4, 5],
           map (\<lambda>i. data_list ! i) [0, 1, 2])"
    if r: "split_type = ''random''" and l: "length data_list = 10" and e: "eval_size config = 3"
  proof -
    have "ys = data_list"
      using assms(3) r by (simp add: order_data_list_def)
    moreover have "?e = 3" "2 * ?e = 6"
      using e by simp_all
    ultimately show ?thesis
      using sliced take_drop_ten [OF l] by simp
  qed
  with sliced show ?thesis by blast
qed

theorem split_slices_witness:
  "''random'' \<noteq> ''seq_identity'' \<and> 0 \<le> eval_size \<lparr>eval_size = 3\<rparr>
   \<and> order_data_list ''random'' corpus10 ([] :: nat list) = Inr corpus10
   \<and> get_data_splits \<lparr>eval_size = 3\<rparr> ''random'' corpus10 ([] :: nat list) ([], [], []) =
        Inr ([smp 6 1, smp 7 1, smp 8 1, smp 9 1], [smp 3 1, smp 4 1, smp 5 1],
             [smp 0 1, smp 1 1, smp 2 1])"
proof -
  have o: "order_data_list ''random'' corpus10 ([] :: nat list) = Inr corpus10"
    by (simp add: order_data_list_def)
  have c: "0 \<le> eval_size \<lparr>eval_size = 3\<rparr>" and n: "''random'' \<noteq> ''seq_identity''"
    by simp_all
  show ?thesis
    using split_slices [OF n c o, of "([], [], [])"] o by (simp add: corpus10_def)
qed

text \<open>
  C3. For the \<^verbatim>\<open>rmsd\<close> and \<^verbatim>\<open>struct\<close> strategies the sequence that is sliced is the
  corpus sorted by the metric (average RMSD, number of structures) in non-increasing order,
  and the sort is stable: for every metric value, the samples with that value stand in
  their original relative order.
\<close>

theorem sorted_by_metric_stable:
  assumes "split_type = ''rmsd'' \<or> split_type = ''struct''"
    and "order_data_list split_type data_list rmsd_list = Inr ys"
  shows "get_data_splits config split_type data_list rmsd_list seq =
           Inr (slice ys (Some (2 * eval_size config)) None,
                slice ys (Some (eval_size config)) (Some (2 * eval_size config)),
                slice ys None (Some (eval_size config)))
    \<and> (split_type = ''rmsd'' \<longrightarrow>
         (\<exists>ms. length ms = length ys \<and> sorted_wrt (\<lambda>a b. b \<le> a) ms
            \<and> (\<forall>k. filter (\<lambda>p. snd p = k) (zip ys ms) =
                     filter (\<lambda>p. snd p = k) (zip data_list rmsd_list))))
    \<and> (split_type = ''struct'' \<longrightarrow>
         sorted_wrt (\<lambda>a b. length (coords_list b) \<le> length (coords_list a)) ys
         \<and> (\<forall>k. filter (\<lambda>d. length (coords_list d) = k) ys =
                  filter (\<lambda>d. length (coords_list d) = k) data_list))"
proof -
  have "split_type \<noteq> ''seq_identity''"
    using assms(1) by auto
  then have "get_data_splits config split_type data_list rmsd_list seq =
      Inr (slice ys (Some (2 * eval_size config)) None,
           slice ys (Some (eval_size config)) (Some (2 * eval_size config)),
           slice ys None (Some (eval_size config)))"
    using assms(2) by (simp add: get_data_splits_def Let_def)
  then show ?thesis
    using assms(2) rmsd_order_sorted_stable [of data_list rmsd_list ys]
      struct_order_sorted_stable [of data_list rmsd_list ys]
    by blast
qed

theorem sorted_by_metric_stable_witness:
  "order_data_list ''rmsd'' [smp 0 1, smp 1 1, smp 2 1, smp 3 1] [5 :: nat, 7, 7, 1] =
       Inr [smp 1 1, smp 2 1, smp 0 1, smp 3 1]
   \<and> get_data_splits \<lparr>eval_size = 1\<rparr> ''rmsd'' [smp 0 1, smp 1 1, smp 2 1, smp 3 1]
       [5 :: nat, 7, 7, 1] ([], [], []) =
     Inr ([smp 0 1, smp 3 1], [smp 2 1], [smp 1 1])
   \<and> order_data_list ''struct'' [smp 0 1, smp 1 2, smp 2 1, smp 3 2] ([] :: nat list) =
       Inr [smp 1 2, smp 3 2, smp 0 1, smp 2 1]
   \<and> get_data_splits \<lparr>eval_size = 1\<rparr> ''struct'' [smp 0 1, smp 1 2, smp 2 1, smp 3 2]
       ([] :: nat list) ([], [], []) =
     Inr ([smp 0 1, smp 2 1], [smp 3 2], [smp 1 2])
   \<and> sorted_wrt (\<lambda>a b. length (coords_list b) \<le> length (coords_list a))
       [smp 1 2, smp 3 2, smp 0 1, smp 2 1]"
proof -
  have r: "order_data_list ''rmsd'' [smp 0 1, smp 1 1, smp 2 1, smp 3 1] [5 :: nat, 7, 7, 1] =
      Inr [smp 1 1, smp 2 1, smp 0 1, smp 3 1]"
    by (simp add: order_data_list_def sorted_reverse_def unzip2_def)
  have s: "order_data_list ''struct'' [smp 0 1, smp 1 2, smp 2 1, smp 3 2] ([] :: nat list) =
      Inr [smp 1 2, smp 3 2, smp 0 1, smp 2 1]"
    by (simp add: order_data_list_def count_list_struct_def sorted_reverse_def unzip2_def
        smp_def)
  show ?thesis
    using sorted_by_metric_stable [OF disjI1 [OF refl] r, of "\<lparr>eval_size = 1\<rparr>" "([], [], [])"]
      sorted_by_metric_stable [OF disjI2 [OF refl] s, of "\<lparr>eval_size = 1\<rparr>" "([], [], [])"]
      r s
    by (simp add: slice_def slice_bound_def)
qed

section \<open>Partition of the corpus\<close>

lemma lookup_nat: "lookup lst (int j) = lst ! j"
  by (simp add: lookup_def)

lemma mset_lookup_all:
  assumes "mset indices = mset (map int [0..<length lst])"
  shows "mset (map (lookup lst) indices) = mset lst"
proof -
  have "mset (map (lookup lst) indices) = image_mset (lookup lst) (mset indices)"
    by simp
  also have "\<dots> = mset (map (lookup lst) (map int [0..<length lst]))"
    by (simp only: assms mset_map)
  also have "map (lookup lst) (map int [0..<length lst]) = map (\<lambda>j. lst ! j) [0..<length lst]"
    by (simp add: lookup_nat)
  also have "\<dots> = lst"
    by (rule map_nth)
  finally show ?thesis .
qed

lemma all_in_range:
  assumes "mset indices = mset (map int [0..<length lst])"
  shows "list_all (in_range lst) indices"
proof -
  have "set indices = set (map int [0..<length lst])"
    using assms by (rule mset_eq_setD)
  then show ?thesis
    by (auto simp: list_all_iff in_range_def)
qed

text \<open>
  C2, as the code has it. For every strategy other than \<^verbatim>\<open>seq_identity\<close> and every
  \<open>eval_size \<ge> 0\<close>, the three sequences that the splitter returns contain every sample of
  the corpus exactly once. For \<^verbatim>\<open>seq_identity\<close> they do so when the three index lists of
  the artifact together list every index \<open>0 .. len(data_list) - 1\<close> exactly once, which the
  code does not check.
\<close>

theorem splits_partition:
  assumes "get_data_splits config split_type data_list rmsd_list
             (train_idx_list, val_idx_list, test_idx_list) =
           Inr (train_list, val_list, test_list)"
    and "if split_type = ''seq_identity''
         then mset (train_idx_list @ val_idx_list @ test_idx_list) =
                mset (map int [0..<length data_list])
         else 0 \<le> eval_size config"
  shows "mset train_list + mset val_list + mset test_list = mset data_list"
proof (cases "split_type = ''seq_identity''")
  case True
  let ?all = "train_idx_list @ val_idx_list @ test_idx_list"
  have m: "mset ?all = mset (map int [0..<length data_list])"
    using True assms(2) by simp
  have "list_all (in_range data_list) ?all"
    using m by (rule all_in_range)
  then have "train_list @ val_list @ test_list = map (lookup data_list) ?all"
    using True assms(1) by (simp add: get_data_splits_def index_list_by_indices_eq)
  then have "mset (train_list @ val_list @ test_list) = mset data_list"
    using mset_lookup_all [OF m] by simp
  then show ?thesis
    by (simp add: ac_simps)
next
  case False
  then have "0 \<le> eval_size config"
    using assms(2) by simp
  with False have "order_data_list split_type data_list rmsd_list =
      Inr (test_list @ val_list @ train_list)"
    using assms(1) by (rule get_data_splits_concat)
  then have "mset (test_list @ val_list @ train_list) = mset data_list"
    by (rule order_data_list_mset)
  then show ?thesis
    by (simp add: ac_simps)
qed

theorem splits_partition_witness:
  "get_data_splits \<lparr>eval_size = 1\<rparr> ''seq_identity'' [smp 0 1, smp 1 1, smp 2 1]
       ([] :: nat list) ([2], [0], [1]) =
     Inr ([smp 2 1], [smp 0 1], [smp 1 1])
   \<and> mset [2, 0, 1] = mset (map int [0..<length [smp 0 1, smp 1 1, smp 2 1]])
   \<and> mset [smp 2 1] + mset [smp 0 1] + mset [smp 1 1] = mset [smp 0 1, smp 1 1, smp 2 1]
   \<and> get_data_splits \<lparr>eval_size = 1\<rparr> ''struct'' [smp 0 1, smp 1 2, smp 2 1, smp 3 2]
       ([] :: nat list) ([], [], []) =
     Inr ([smp 0 1, smp 2 1], [smp 3 2], [smp 1 2])
   \<and> 0 \<le> eval_size \<lparr>eval_size = 1\<rparr>
   \<and> mset [smp 0 1, smp 2 1] + mset [smp 3 2] + mset [smp 1 2] =
       mset [smp 0 1, smp 1 2, smp 2 1, smp 3 2]"
proof -
  have q: "get_data_splits \<lparr>eval_size = 1\<rparr> ''seq_identity'' [smp 0 1, smp 1 1, smp 2 1]
      ([] :: nat list) ([2], [0], [1]) = Inr ([smp 2 1], [smp 0 1], [smp 1 1])"
    by (simp add: get_data_splits_def getitem_def)
  have u: "map int [0..<length [smp 0 1, smp 1 1, smp 2 1]] = [0, 1, 2]"
    by code_simp
  have m: "mset [2, 0, 1] = mset (map int [0..<length [smp 0 1, smp 1 1, smp 2 1]])"
    unfolding u by simp
  have s: "get_data_splits \<lparr>eval_size = 1\<rparr> ''struct'' [smp 0 1, smp 1 2, smp 2 1, smp 3 2]
      ([] :: nat list) ([], [], []) = Inr ([smp 0 1, smp 2 1], [smp 3 2], [smp 1 2])"
    by (simp add: get_data_splits_def order_data_list_def count_list_struct_def
        sorted_reverse_def unzip2_def slice_def slice_bound_def smp_def)
  have "mset [smp 2 1] + mset [smp 0 1] + mset [smp 1 1] = mset [smp 0 1, smp 1 1, smp 2 1]"
    using splits_partition [OF q] m by simp
  moreover have "mset [smp 0 1, smp 2 1] + mset [smp 3 2] + mset [smp 1 2] =
      mset [smp 0 1, smp 1 2, smp 2 1, smp 3 2]"
    using splits_partition [OF s] by simp
  ultimately show ?thesis
    using q m s by simp
qed

text \<open>
  C2 as stated fails: with the artifact \<open>([0], [0], [0])\<close> on two samples the
  \<^verbatim>\<open>seq_identity\<close> strategy returns the first sample three times and the second never.
\<close>

theorem seq_identity_not_partition:
  "get_data_splits \<lparr>eval_size = 1\<rparr> ''seq_identity'' [smp 0 1, smp 1 1] ([] :: nat list)
       ([0], [0], [0]) =
     Inr ([smp 0 1], [smp 0 1], [smp 0 1])
   \<and> mset [smp 0 1] + mset [smp 0 1] + mset [smp 0 1] \<noteq> mset [smp 0 1, smp 1 1]"
proof -
  have "size (mset [smp 0 1] + mset [smp 0 1] + mset [smp 0 1]) \<noteq> size (mset [smp 0 1, smp 1 1])"
    by simp
  then have "mset [smp 0 1] + mset [smp 0 1] + mset [smp 0 1] \<noteq> mset [smp 0 1, smp 1 1]"
    by metis
  then show ?thesis
    by (simp add: get_data_splits_def getitem_def)
qed

text \<open>
  A negative \<open>eval_size\<close> is sliced from the end: the middle sample is then in both
  test and train.
\<close>

lemma negative_eval_size_duplicates:
  "get_data_splits \<lparr>eval_size = - 1\<rparr> ''random'' [smp 0 1, smp 1 1, smp 2 1] ([] :: nat list)
       ([], [], []) =
     Inr ([smp 1 1, smp 2 1], [], [smp 0 1, smp 1 1])"
  by (simp add: get_data_splits_def order_data_list_def slice_def slice_bound_def)

section \<open>Error conditions\<close>

text \<open>
  C5, as the code has it. For every strategy other than \<^verbatim>\<open>seq_identity\<close> and every
  \<open>eval_size \<ge> 0\<close> with \<open>2 * eval_size\<close> at least the number of samples, the splitter
  raises no error on that account: whenever the ordering step succeeds it returns, with an
  empty train sequence, the first \<open>eval_size\<close> items as test and the following items (at
  most \<open>eval_size\<close>) as val.
\<close>

theorem large_eval_size_empty_train:
  assumes "split_type \<noteq> ''seq_identity''"
    and "0 \<le> eval_size config"
    and "int (length data_list) \<le> 2 * eval_size config"
    and "order_data_list split_type data_list rmsd_list = Inr ys"
  shows "get_data_splits config split_type data_list rmsd_list seq =
           Inr ([], take (nat (eval_size config)) (drop (nat (eval_size config)) ys),
                take (nat (eval_size config)) ys)"
proof -
  have "length ys \<le> 2 * nat (eval_size config)"
    using assms(2,3) order_data_list_length [OF assms(4)] by simp
  then show ?thesis
    using get_data_splits_sliced [OF assms(1,2,4)] by simp
qed

theorem large_eval_size_empty_train_witness:
  "''struct'' \<noteq> ''seq_identity'' \<and> 0 \<le> eval_size \<lparr>eval_size = 2\<rparr>
   \<and> int (length [smp 0 1, smp 1 3, smp 2 2]) \<le> 2 * eval_size \<lparr>eval_size = 2\<rparr>
   \<and> order_data_list ''struct'' [smp 0 1, smp 1 3, smp 2 2] ([] :: nat list) =
        Inr [smp 1 3, smp 2 2, smp 0 1]
   \<and> get_data_splits \<lparr>eval_size = 2\<rparr> ''struct'' [smp 0 1, smp 1 3, smp 2 2] ([] :: nat list)
        ([], [], []) =
      Inr ([], [smp 0 1], [smp 1 3, smp 2 2])"
proof -
  have o: "order_data_list ''struct'' [smp 0 1, smp 1 3, smp 2 2] ([] :: nat list) =
      Inr [smp 1 3, smp 2 2, smp 0 1]"
    by (simp add: order_data_list_def count_list_struct_def sorted_reverse_def unzip2_def smp_def)
  have n: "''struct'' \<noteq> ''seq_identity''" and e: "0 \<le> eval_size \<lparr>eval_size = 2\<rparr>"
    and l: "int (length [smp 0 1, smp 1 3, smp 2 2]) \<le> 2 * eval_size \<lparr>eval_size = 2\<rparr>"
    by simp_all
  show ?thesis
    using large_eval_size_empty_train [OF n e l o, of "([], [], [])"] o by simp
qed

text \<open>
  C5 as stated fails: a corpus of two samples with \<open>eval_size = 1\<close> satisfies
  \<open>2 * eval_size \<ge> 2\<close>, and the random strategy returns a split with an empty train
  sequence.
\<close>

theorem large_eval_size_accepted:
  "2 * eval_size \<lparr>eval_size = 1\<rparr> \<ge> int (length [smp 0 1, smp 1 1])
   \<and> get_data_splits \<lparr>eval_size = 1\<rparr> ''random'' [smp 0 1, smp 1 1] ([] :: nat list)
        ([], [], []) =
      Inr ([], [smp 1 1], [smp 0 1])"
  by (simp add: get_data_splits_def order_data_list_def slice_def slice_bound_def)


text \<open>
  C6, as the code has it. A split strategy outside \<^verbatim>\<open>seq_identity\<close>, \<^verbatim>\<open>rmsd\<close> and
  \<^verbatim>\<open>struct\<close> reaches the final \<^verbatim>\<open>else\<close> branch: it raises no error and gives the result of
  the random strategy, the three slices of the corpus in source order.
\<close>

theorem unknown_strategy_is_random:
  assumes "split_type \<notin> {''seq_identity'', ''rmsd'', ''struct''}"
  shows "get_data_splits config split_type data_list rmsd_list seq =
           Inr (slice data_list (Some (2 * eval_size config)) None,
                slice data_list (Some (eval_size config)) (Some (2 * eval_size config)),
                slice data_list None (Some (eval_size config)))
         \<and> get_data_splits config split_type data_list rmsd_list seq =
             get_data_splits config ''random'' data_list rmsd_list seq"
  using assms by (simp add: get_data_splits_def order_data_list_def Let_def)

theorem unknown_strategy_is_random_witness:
  "''kmeans'' \<notin> {''seq_identity'', ''rmsd'', ''struct''}
   \<and> get_data_splits \<lparr>eval_size = 1\<rparr> ''kmeans'' [smp 0 2, smp 1 1, smp 2 3, smp 3 1]
        ([] :: nat list) ([], [], []) =
      get_data_splits \<lparr>eval_size = 1\<rparr> ''random'' [smp 0 2, smp 1 1, smp 2 3, smp 3 1]
        ([] :: nat list) ([], [], [])"
proof -
  have n: "''kmeans'' \<notin> {''seq_identity'', ''rmsd'', ''struct''}"
    by simp
  show ?thesis
    using unknown_strategy_is_random [OF n] n by blast
qed

text \<open>
  C6 as stated fails: the unknown strategy \<^verbatim>\<open>kmeans\<close> is accepted and a split is returned.
\<close>

theorem unknown_strategy_accepted:
  "get_data_splits \<lparr>eval_size = 1\<rparr> ''kmeans'' [smp 0 1, smp 1 2, smp 2 3] ([] :: nat list)
       ([], [], []) =
     Inr ([smp 2 3], [smp 1 2], [smp 0 1])"
  by (simp add: get_data_splits_def order_data_list_def slice_def slice_bound_def)

text \<open>
  C7. For the \<^verbatim>\<open>rmsd\<close> strategy a metric list whose length differs from the number of
  samples makes the splitter fail, with the AssertionError of its \<^verbatim>\<open>assert\<close>. For the
  \<^verbatim>\<open>struct\<close> strategy the metric list is computed from the samples, so its length is the
  number of samples and the strategy never raises an AssertionError.
\<close>

theorem metric_length_mismatch:
  "(length rmsd_list \<noteq> length data_list \<longrightarrow>
      get_data_splits config ''rmsd'' data_list rmsd_list seq = Inl AssertionError)
   \<and> length (count_list_struct data_list) = length data_list
   \<and> get_data_splits config ''struct'' data_list rmsd_list seq \<noteq> Inl AssertionError"
  by (simp add: get_data_splits_def order_data_list_def count_list_struct_def unzip2_def Let_def
      split: sum.splits)

theorem metric_length_mismatch_witness:
  "length [1 :: nat] \<noteq> length [smp 0 1, smp 1 1]
   \<and> get_data_splits \<lparr>eval_size = 1\<rparr> ''rmsd'' [smp 0 1, smp 1 1] [1 :: nat] ([], [], []) =
       Inl AssertionError"
  using metric_length_mismatch [of "[1 :: nat]" "[smp 0 1, smp 1 1]" "\<lparr>eval_size = 1\<rparr>"
      "([], [], [])"]
  by simp

text \<open>
  C10. On an empty corpus the \<^verbatim>\<open>rmsd\<close> and \<^verbatim>\<open>struct\<close> strategies fail with the ValueError
  of unpacking \<^verbatim>\<open>zip(*sorted_zipped)\<close>, and the random strategy returns three empty
  splits.
\<close>

theorem empty_corpus:
  "get_data_splits config ''rmsd'' [] [] seq = Inl ValueError
   \<and> get_data_splits config ''struct'' [] rmsd_list seq = Inl ValueError
   \<and> get_data_splits config ''random'' [] rmsd_list seq = Inr ([], [], [])"
  by (simp add: get_data_splits_def order_data_list_def count_list_struct_def sorted_reverse_def
      unzip2_def slice_def)

section \<open>The precomputed split of the sequence-identity strategy\<close>

text \<open>
  C4, as the code has it. The \<^verbatim>\<open>seq_identity\<close> strategy fails exactly when one of the three
  index lists holds an index outside \<open>-len(data_list) \<le> index < len(data_list)\<close>, and then
  with an IndexError; otherwise it returns the samples that the three lists select, and
  checks neither that the lists are disjoint nor that they cover the corpus.
\<close>

theorem seq_identity_fails_iff_out_of_range:
  "get_data_splits config ''seq_identity'' data_list rmsd_list
       (train_idx_list, val_idx_list, test_idx_list) =
     (if list_all (in_range data_list) (train_idx_list @ val_idx_list @ test_idx_list)
      then Inr (map (lookup data_list) train_idx_list, map (lookup data_list) val_idx_list,
                map (lookup data_list) test_idx_list)
      else Inl IndexError)"
  by (simp add: get_data_splits_def index_list_by_indices_eq)

theorem seq_identity_fails_iff_out_of_range_witness:
  "get_data_splits \<lparr>eval_size = 1\<rparr> ''seq_identity'' [smp 0 1, smp 1 1] ([] :: nat list)
       ([0], [2], [1]) = Inl IndexError
   \<and> get_data_splits \<lparr>eval_size = 1\<rparr> ''seq_identity'' [smp 0 1, smp 1 1] ([] :: nat list)
       ([1], [], [0]) = Inr ([smp 1 1], [], [smp 0 1])"
  using seq_identity_fails_iff_out_of_range [of "\<lparr>eval_size = 1\<rparr>" "[smp 0 1, smp 1 1]"
      "[] :: nat list" "[0]" "[2]" "[1]"]
    seq_identity_fails_iff_out_of_range [of "\<lparr>eval_size = 1\<rparr>" "[smp 0 1, smp 1 1]"
      "[] :: nat list" "[1]" "[]" "[0]"]
  by (simp add: in_range_def lookup_def)

text \<open>
  C4 as stated fails: on three samples the artifact with train \<open>[0, 1]\<close>, val \<open>[1]\<close> and an
  empty test list is neither disjoint nor covering, and the split is returned.
\<close>

theorem seq_identity_overlap_accepted:
  "get_data_splits \<lparr>eval_size = 1\<rparr> ''seq_identity'' [smp 0 1, smp 1 1, smp 2 1]
       ([] :: nat list) ([0, 1], [1], []) =
     Inr ([smp 0 1, smp 1 1], [smp 1 1], [])"
  by (simp add: get_data_splits_def getitem_def)

text \<open>
  C9. A negative index \<open>i\<close> with \<open>-len(lst) \<le> i < 0\<close> is accepted without an error:
  when the other indices are in range, \<^verbatim>\<open>index_list_by_indices\<close> returns a list that holds
  the element at position \<open>len(lst) + i\<close> where \<open>i\<close> stood.
\<close>

theorem negative_index_accepted:
  assumes "- int (length lst) \<le> i" and "i < 0"
    and "list_all (in_range lst) indices"
    and "k < length indices" and "indices ! k = i"
  shows "\<exists>out. index_list_by_indices lst indices = Inr out \<and> length out = length indices
           \<and> out ! k = lst ! nat (int (length lst) + i)"
  using assms by (simp add: index_list_by_indices_eq lookup_def)

theorem negative_index_accepted_witness:
  "- int (length [smp 0 1, smp 1 1, smp 2 1]) \<le> - 1 \<and> (- 1 :: int) < 0
   \<and> list_all (in_range [smp 0 1, smp 1 1, smp 2 1]) [0, - 1]
   \<and> (1 :: nat) < length [0 :: int, - 1] \<and> [0 :: int, - 1] ! 1 = - 1
   \<and> index_list_by_indices [smp 0 1, smp 1 1, smp 2 1] [0, - 1] = Inr [smp 0 1, smp 2 1]"
proof -
  have a: "- int (length [smp 0 1, smp 1 1, smp 2 1]) \<le> - 1" and b: "(- 1 :: int) < 0"
    and c: "list_all (in_range [smp 0 1, smp 1 1, smp 2 1]) [0, - 1]"
    and d: "(1 :: nat) < length [0 :: int, - 1]" and e: "[0 :: int, - 1] ! 1 = - 1"
    by (simp_all add: in_range_def)
  from negative_index_accepted [OF a b c d e]
  obtain out where "index_list_by_indices [smp 0 1, smp 1 1, smp 2 1] [0, - 1] = Inr out"
    by blast
  then show ?thesis
    using a b c d e by (simp add: getitem_def)
qed

section \<open>The batch sampler: budget and coverage\<close>

lemma concat_pack: "concat (pack node_counts max_nodes order batch n) = batch @ order"
  by (induction order arbitrary: batch n) simp_all

lemma pack_no_empty_batch: "[] \<notin> set (pack node_counts max_nodes order batch n)"
  by (induction order arbitrary: batch n) simp_all

lemma within_budget_single: "within_budget node_counts max_nodes [i]"
  by (auto simp: within_budget_def)

lemma pack_within_budget:
  assumes "n = sum_list (map (\<lambda>i. node_counts ! i) batch)"
    and "batch = [] \<or> within_budget node_counts max_nodes batch"
    and "b \<in> set (pack node_counts max_nodes order batch n)"
  shows "within_budget node_counts max_nodes b"
  using assms
proof (induction order arbitrary: batch n)
  case Nil
  then show ?case by (auto split: if_splits)
next
  case (Cons i rest)
  show ?case
  proof (cases "n + node_counts ! i \<le> max_nodes")
    case True
    have "within_budget node_counts max_nodes (batch @ [i])"
      using True Cons.prems(1) by (simp add: within_budget_def)
    moreover have "b \<in> set (pack node_counts max_nodes rest (batch @ [i]) (n + node_counts ! i))"
      using True Cons.prems(3) by simp
    ultimately show ?thesis
      using Cons.IH [of "n + node_counts ! i" "batch @ [i]"] Cons.prems(1) by simp
  next
    case False
    have rest: "b \<in> set (pack node_counts max_nodes rest [i] (node_counts ! i)) \<Longrightarrow> ?thesis"
      using Cons.IH [of "node_counts ! i" "[i]"] within_budget_single by simp
    show ?thesis
    proof (cases "batch = []")
      case True
      then show ?thesis
        using False Cons.prems(3) rest by simp
    next
      case nonempty: False
      then have "b = batch \<or> b \<in> set (pack node_counts max_nodes rest [i] (node_counts ! i))"
        using False Cons.prems(3) by simp
      then show ?thesis
        using nonempty Cons.prems(2) rest by blast
    qed
  qed
qed

lemma distinct_concat_unique:
  assumes "distinct (concat bs)" and "[] \<notin> set bs"
    and "k < length bs" and "k' < length bs" and "i \<in> set (bs ! k)" and "i \<in> set (bs ! k')"
  shows "k = k'"
proof (rule ccontr)
  assume ne: "k \<noteq> k'"
  have d: "distinct bs"
    using assms(1,2) by (simp add: distinct_concat_iff removeAll_id)
  then have "bs ! k \<noteq> bs ! k'"
    using ne assms(3,4) by (simp add: nth_eq_iff_index_eq)
  moreover have "bs ! k \<in> set bs" "bs ! k' \<in> set bs"
    using assms(3,4) by simp_all
  ultimately have "set (bs ! k) \<inter> set (bs ! k') = {}"
    using assms(1) by (simp add: distinct_concat_iff)
  then show False
    using assms(5,6) by blast
qed

text \<open>
  C8. In every epoch, every emitted batch either has a total size of at most
  \<open>max_nodes\<close> or is a singleton whose sample alone exceeds \<open>max_nodes\<close>, and every
  index of the split is in exactly one batch. With \<open>shuffle\<close> the ordering \<open>perm\<close> is a
  permutation of the indices of the split.
\<close>

theorem epoch_budget_and_coverage:
  assumes "shuffle \<longrightarrow> mset perm = mset [0..<length node_counts]"
  shows "(\<forall>batch \<in> set (epoch node_counts max_nodes shuffle perm).
            within_budget node_counts max_nodes batch)
         \<and> (\<forall>i < length node_counts.
              \<exists>!k. k < length (epoch node_counts max_nodes shuffle perm)
                    \<and> i \<in> set (epoch node_counts max_nodes shuffle perm ! k))
         \<and> mset (concat (epoch node_counts max_nodes shuffle perm)) =
             mset [0..<length node_counts]"
proof -
  let ?order = "if shuffle then perm else [0..<length node_counts]"
  let ?bs = "epoch node_counts max_nodes shuffle perm"
  have perm: "mset ?order = mset [0..<length node_counts]"
    using assms by simp
  have c: "concat ?bs = ?order"
    by (simp add: epoch_def concat_pack)
  have ne: "[] \<notin> set ?bs"
    by (simp add: epoch_def pack_no_empty_batch)
  have budget: "\<forall>batch \<in> set ?bs. within_budget node_counts max_nodes batch"
    unfolding epoch_def by (auto intro: pack_within_budget [where batch = "[]" and n = 0])
  have m: "mset (concat ?bs) = mset [0..<length node_counts]"
    using c perm by simp
  have d: "distinct (concat ?bs)"
    using m by (metis distinct_upt mset_eq_imp_distinct_iff)
  have "\<exists>!k. k < length ?bs \<and> i \<in> set (?bs ! k)" if "i < length node_counts" for i
  proof -
    have "i \<in> set (concat ?bs)"
      using m that by (metis atLeast0LessThan lessThan_iff mset_eq_setD set_upt)
    then obtain b where "b \<in> set ?bs" "i \<in> set b"
      by auto
    then obtain k where "k < length ?bs" "i \<in> set (?bs ! k)"
      by (auto simp: in_set_conv_nth)
    then show ?thesis
      using distinct_concat_unique [OF d ne] by blast
  qed
  with budget m show ?thesis by blast
qed

theorem epoch_budget_and_coverage_witness:
  "mset [4, 3, 2, 1, 0] = mset [0..<length [5 :: nat, 1, 1, 5, 3]]
   \<and> epoch [5, 1, 1, 5, 3] 3 True [4, 3, 2, 1, 0] = [[4], [3], [2, 1], [0]]
   \<and> within_budget [5, 1, 1, 5, 3] 3 [4] \<and> within_budget [5, 1, 1, 5, 3] 3 [3]
   \<and> within_budget [5, 1, 1, 5, 3] 3 [2, 1] \<and> within_budget [5, 1, 1, 5, 3] 3 [0]
   \<and> mset (concat (epoch [5, 1, 1, 5, 3] 3 True [4, 3, 2, 1, 0])) = mset [0, 1, 2, 3, 4]"
proof -
  have u: "[0..<length [5 :: nat, 1, 1, 5, 3]] = [0, 1, 2, 3, 4]"
    by code_simp
  have p: "True \<longrightarrow> mset [4, 3, 2, 1, 0] = mset [0..<length [5 :: nat, 1, 1, 5, 3]]"
    unfolding u by simp
  have e: "epoch [5, 1, 1, 5, 3] 3 True [4, 3, 2, 1, 0] = [[4], [3], [2, 1], [0]]"
    by (simp add: epoch_def)
  show ?thesis
    using epoch_budget_and_coverage [OF p, of 3] p unfolding e u by simp
qed

text \<open>The two batching scenarios of the specification.\<close>

lemma epoch_scenarios:
  "epoch [60, 40, 30, 20, 10] 100 False perm = [[0, 1], [2, 3, 4]]"
  "epoch [5, 5, 5] 3 False perm = [[0], [1], [2]]"
  by (simp_all add: epoch_def upt_rec)

end
